theory Spec2Isabelle
  imports Complex_Main
begin

section \<open>Zone-crossing event tracker: \<open>DetectionsManager\<close> of \<open>services/javat.py\<close>\<close>

text \<open>
  Python floats are modelled as exact real numbers, tracker ids as unbounded integers and
  zone ids (positions given by \<open>enumerate\<close>) as naturals. An exception of the source is
  a value \<open>Inl e\<close> of the result.
\<close>

datatype py_error = ZeroDivisionError | IndexError

text \<open>
  The part of an \<open>sv.Detections\<close> object that \<open>update\<close> reads: the array
  \<open>tracker_id\<close> and the attribute \<open>vehicle_type\<close> that the caller attaches; \<open>None\<close>
  stands for an object without the attribute (reading it raises \<open>AttributeError\<close>).
\<close>

record detections =
  tracker_id :: "int list"
  vehicle_type :: "string list option"

text \<open>The dictionary appended to \<open>self.events\<close>, one field per key.\<close>

record event =
  ev_Id :: int
  ev_Num_rotonda :: string
  ev_horario :: string
  ev_dia :: string
  Id_Entrada :: nat
  Id_salida :: nat
  Tiempo_Entrada :: real
  Tiempo_Salida :: real
  Tiempo_dentro :: real
  Tipo_vehiculo :: string

record detections_manager =
  num_rotonda :: string
  horario :: string
  dia :: string
  fps :: real
  tracker_id_to_zone_id :: "int \<rightharpoonup> nat"
  counts :: "nat \<rightharpoonup> (nat \<rightharpoonup> int set)"
  tracker_entry_info :: "int \<rightharpoonup> (nat \<times> real \<times> string)"
  events :: "event list"
  event_counter :: nat

text \<open>\<open>DetectionsManager.__init__\<close>.\<close>

definition DetectionsManager :: "string \<Rightarrow> string \<Rightarrow> string \<Rightarrow> real \<Rightarrow> detections_manager" where
  "DetectionsManager nr h d f =
     \<lparr>num_rotonda = nr, horario = h, dia = d, fps = f,
      tracker_id_to_zone_id = Map.empty, counts = Map.empty,
      tracker_entry_info = Map.empty, events = [], event_counter = 0\<rparr>"

text \<open>
  \<open>detections_in_zone.vehicle_type[idx]\<close> inside \<open>try ... except AttributeError\<close>: a
  missing attribute gives the default, an index out of range is not caught.
\<close>

definition get_vehicle_type :: "detections \<Rightarrow> nat \<Rightarrow> py_error + string" where
  "get_vehicle_type d idx =
     (case vehicle_type d of
        None \<Rightarrow> Inr ''Desconocido''
      | Some vts \<Rightarrow> if idx < length vts then Inr (vts ! idx) else Inl IndexError)"

text \<open>\<open>dict.setdefault(k, v)\<close> used as a statement.\<close>

definition setdefault :: "('k \<rightharpoonup> 'v) \<Rightarrow> 'k \<Rightarrow> 'v \<Rightarrow> ('k \<rightharpoonup> 'v)" where
  "setdefault m k v = (case m k of None \<Rightarrow> m(k \<mapsto> v) | Some _ \<Rightarrow> m)"

text \<open>
  The inner loop of the entry phase (lines 109--117), from position \<open>idx\<close> of the
  zone's \<open>tracker_id\<close> array on.
\<close>

fun entry_zone ::
  "real \<Rightarrow> nat \<Rightarrow> detections \<Rightarrow> nat \<Rightarrow> int list \<Rightarrow> detections_manager
     \<Rightarrow> py_error + detections_manager" where
  "entry_zone time_seconds zone_in_id d idx [] s = Inr s"
| "entry_zone time_seconds zone_in_id d idx (tid # tids) s =
     (if tracker_entry_info s tid = None then
        (case get_vehicle_type d idx of
           Inl e \<Rightarrow> Inl e
         | Inr vt \<Rightarrow>
             entry_zone time_seconds zone_in_id d (Suc idx) tids
               (s\<lparr>tracker_entry_info := (tracker_entry_info s)(tid \<mapsto> (zone_in_id, time_seconds, vt)),
                  tracker_id_to_zone_id := setdefault (tracker_id_to_zone_id s) tid zone_in_id\<rparr>))
      else entry_zone time_seconds zone_in_id d (Suc idx) tids s)"

text \<open>The outer loop of the entry phase (line 108), from zone index \<open>zone_in_id\<close> on.\<close>

fun entry_phase ::
  "real \<Rightarrow> nat \<Rightarrow> detections list \<Rightarrow> detections_manager \<Rightarrow> py_error + detections_manager" where
  "entry_phase time_seconds zone_in_id [] s = Inr s"
| "entry_phase time_seconds zone_in_id (d # ds) s =
     (case entry_zone time_seconds zone_in_id d 0 (tracker_id d) s of
        Inl e \<Rightarrow> Inl e
      | Inr s' \<Rightarrow> entry_phase time_seconds (Suc zone_in_id) ds s')"

text \<open>Lines 130--132: the nested \<open>setdefault\<close> calls and \<open>add\<close> on \<open>self.counts\<close>.\<close>

definition counts_add ::
  "(nat \<rightharpoonup> (nat \<rightharpoonup> int set)) \<Rightarrow> nat \<Rightarrow> nat \<Rightarrow> int \<Rightarrow> (nat \<rightharpoonup> (nat \<rightharpoonup> int set))" where
  "counts_add c zone_out_id zone_in_id tid =
     (let inner = (case c zone_out_id of None \<Rightarrow> Map.empty | Some m \<Rightarrow> m);
          ids = (case inner zone_in_id of None \<Rightarrow> {} | Some S \<Rightarrow> S)
      in c(zone_out_id \<mapsto> inner(zone_in_id \<mapsto> insert tid ids)))"

text \<open>The body of the exit loop for one observation (lines 122--151).\<close>

definition exit_obs :: "real \<Rightarrow> nat \<Rightarrow> int \<Rightarrow> detections_manager \<Rightarrow> detections_manager" where
  "exit_obs time_seconds zone_out_id tid s =
     (case tracker_entry_info s tid of
        None \<Rightarrow> s
      | Some (zone_in_id, entry_time, vt) \<Rightarrow>
          (let exit_time = time_seconds;
               time_inside = exit_time - entry_time
           in s\<lparr>counts := counts_add (counts s) zone_out_id zone_in_id tid,
                events := events s @
                  [\<lparr>ev_Id = tid, ev_Num_rotonda = num_rotonda s, ev_horario = horario s,
                    ev_dia = dia s, Id_Entrada = zone_in_id, Id_salida = zone_out_id,
                    Tiempo_Entrada = entry_time, Tiempo_Salida = exit_time,
                    Tiempo_dentro = time_inside, Tipo_vehiculo = vt\<rparr>],
                event_counter := event_counter s + 1,
                tracker_entry_info := (tracker_entry_info s)(tid := None)\<rparr>))"

fun exit_zone :: "real \<Rightarrow> nat \<Rightarrow> int list \<Rightarrow> detections_manager \<Rightarrow> detections_manager" where
  "exit_zone time_seconds zone_out_id [] s = s"
| "exit_zone time_seconds zone_out_id (tid # tids) s =
     exit_zone time_seconds zone_out_id tids (exit_obs time_seconds zone_out_id tid s)"

fun exit_phase :: "real \<Rightarrow> nat \<Rightarrow> detections list \<Rightarrow> detections_manager \<Rightarrow> detections_manager" where
  "exit_phase time_seconds zone_out_id [] s = s"
| "exit_phase time_seconds zone_out_id (d # ds) s =
     exit_phase time_seconds (Suc zone_out_id) ds
       (exit_zone time_seconds zone_out_id (tracker_id d) s)"

text \<open>
  Lines 154--161: every detection gets the entry zone of its tracker id as class id, or
  \<open>-1\<close>; the detections with class id \<open>-1\<close> are dropped. The result lists the kept
  tracker ids with their class ids.
\<close>

definition annotate :: "detections_manager \<Rightarrow> detections \<Rightarrow> (int \<times> int) list" where
  "annotate s detections_all =
     (let class_id =
            (if length (tracker_id detections_all) > 0
             then map (\<lambda>x. case tracker_id_to_zone_id s x of None \<Rightarrow> - 1 | Some z \<Rightarrow> int z)
                    (tracker_id detections_all)
             else [])
      in filter (\<lambda>p. snd p \<noteq> - 1) (zip (tracker_id detections_all) class_id))"

text \<open>\<open>DetectionsManager.update\<close>; the division raises when \<open>fps\<close> is zero.\<close>

definition update ::
  "detections_manager \<Rightarrow> detections \<Rightarrow> detections list \<Rightarrow> detections list \<Rightarrow> real
     \<Rightarrow> py_error + (detections_manager \<times> (int \<times> int) list)" where
  "update s detections_all detections_in_zones detections_out_zones frame_time =
     (if fps s = 0 then Inl ZeroDivisionError
      else
        (let time_seconds = frame_time / fps s in
         case entry_phase time_seconds 0 detections_in_zones s of
           Inl e \<Rightarrow> Inl e
         | Inr s1 \<Rightarrow>
             (let s2 = exit_phase time_seconds 0 detections_out_zones s1
              in Inr (s2, annotate s2 detections_all))))"

text \<open>
  One call of \<open>update\<close> per processed frame, as \<open>VideoProcessor\<close> makes them: the
  arguments of a call, and a run over a list of calls that stops at the first exception.
\<close>

record call =
  c_all :: detections
  c_in :: "detections list"
  c_out :: "detections list"
  c_time :: real

fun run :: "detections_manager \<Rightarrow> call list \<Rightarrow> py_error + detections_manager" where
  "run s [] = Inr s"
| "run s (c # cs) =
     (case update s (c_all c) (c_in c) (c_out c) (c_time c) of
        Inl e \<Rightarrow> Inl e
      | Inr (s', _) \<Rightarrow> run s' cs)"

section \<open>Stabilization: \<open>video_stabilizer\<close> of \<open>python/services/stabilizer.py\<close> and of
  \<open>services/stabilizer.py\<close>\<close>

text \<open>
  An image is its shape (\<open>rows\<close> is \<open>shape[0]\<close>, \<open>cols\<close> is \<open>shape[1]\<close>) and its samples;
  a feature point is a pair of coordinates. The operations of the vision library are
  parameters of the model: \<open>goodFeaturesToTrack\<close> may return \<open>None\<close>,
  \<open>calcOpticalFlowPyrLK\<close> returns the new positions and the status array, each possibly
  \<open>None\<close>, and \<open>findHomography\<close> may return no matrix.
\<close>

type_synonym point = "real \<times> real"

type_synonym homography = "real list"

record frame =
  rows :: nat
  cols :: nat
  pixels :: "nat list"

record cv2 =
  cvtColor :: "frame \<Rightarrow> frame"
  goodFeaturesToTrack :: "frame \<Rightarrow> nat \<Rightarrow> real \<Rightarrow> real \<Rightarrow> point list option"
  calcOpticalFlowPyrLK :: "frame \<Rightarrow> frame \<Rightarrow> point list \<Rightarrow> point list option \<times> nat list option"
  findHomography :: "point list \<Rightarrow> point list \<Rightarrow> homography option"
  warpPerspective :: "frame \<Rightarrow> homography \<Rightarrow> int \<times> int \<Rightarrow> frame"

text \<open>
  The \<open>cv2.VideoCapture\<close> opened on the input path: whether it opened, the frames that
  \<open>read\<close> still delivers, and the properties the container reports.
\<close>

record capture =
  isOpened :: bool
  remaining :: "frame list"
  CAP_PROP_FRAME_WIDTH :: real
  CAP_PROP_FRAME_HEIGHT :: real
  CAP_PROP_FPS :: real

text \<open>
  The \<open>cv2.VideoWriter\<close> opened on the output path: its frame rate and size, the frames
  passed to \<open>write\<close> in order, and whether \<open>release\<close> was called.
\<close>

record writer =
  w_fps :: real
  w_size :: "int \<times> int"
  w_frames :: "frame list"
  w_released :: bool

text \<open>
  The function returns \<open>None\<close> on every path; the paths differ in the message printed,
  in the writer left behind (\<open>None\<close> when none was constructed) and in the frames left
  unread in the capture.
\<close>

datatype message = No_se_pudo_abrir | No_se_pudo_leer | No_suficientes_puntos | Guardado

record outcome =
  printed :: message
  salida :: "writer option"
  unread :: "frame list"

text \<open>The variables that the loop carries from one frame to the next, and the writer.\<close>

record loop_state =
  frame_anterior_gray :: frame
  puntos_iniciales :: "point list"
  puntos_ref :: "point list"
  out :: writer

text \<open>Python's \<open>int(x)\<close> on a float truncates towards zero.\<close>

definition int_of_float :: "real \<Rightarrow> int" where
  "int_of_float x = (if 0 \<le> x then \<lfloor>x\<rfloor> else \<lceil>x\<rceil>)"

text \<open>
  NumPy indexing \<open>xs[mask]\<close> with a boolean array: the selected rows, or \<open>IndexError\<close>
  when the mask and the array differ in length.
\<close>

definition mask_select :: "'a list \<Rightarrow> bool list \<Rightarrow> 'a list" where
  "mask_select xs m = map fst (filter snd (zip xs m))"

definition mask_index :: "'a list \<Rightarrow> bool list \<Rightarrow> py_error + 'a list" where
  "mask_index xs m = (if length m = length xs then Inr (mask_select xs m) else Inl IndexError)"

definition out_write :: "writer \<Rightarrow> frame \<Rightarrow> writer" where
  "out_write w f = w\<lparr>w_frames := w_frames w @ [f]\<rparr>"

subsection \<open>\<open>python/services/stabilizer.py\<close>\<close>

text \<open>One iteration of the loop (lines 66--115) on the frame just read.\<close>

definition step_py :: "cv2 \<Rightarrow> int \<times> int \<Rightarrow> loop_state \<Rightarrow> frame \<Rightarrow> py_error + loop_state" where
  "step_py cv dsize st frame_actual =
     (let frame_actual_gray = cvtColor cv frame_actual in
      case calcOpticalFlowPyrLK cv (frame_anterior_gray st) frame_actual_gray (puntos_iniciales st) of
        (None, _) \<Rightarrow>
          Inr (st\<lparr>out := out_write (out st) frame_actual, frame_anterior_gray := frame_actual_gray\<rparr>)
      | (Some puntos_nuevos, None) \<Rightarrow>
          Inr (st\<lparr>out := out_write (out st) frame_actual, frame_anterior_gray := frame_actual_gray\<rparr>)
      | (Some puntos_nuevos, Some status) \<Rightarrow>
          if length status \<noteq> length (puntos_iniciales st) \<or> length status \<noteq> length puntos_nuevos
          then Inr (st\<lparr>out := out_write (out st) frame_actual, frame_anterior_gray := frame_actual_gray\<rparr>)
          else
            (let puntos_buenos = map (\<lambda>x. x = 1) status in
             case mask_index (puntos_iniciales st) puntos_buenos of
               Inl e \<Rightarrow> Inl e
             | Inr puntos_iniciales_filtrados \<Rightarrow>
             case mask_index puntos_nuevos puntos_buenos of
               Inl e \<Rightarrow> Inl e
             | Inr puntos_nuevos_filtrados \<Rightarrow>
             case mask_index (puntos_ref st) puntos_buenos of
               Inl e \<Rightarrow> Inl e
             | Inr puntos_ref_filtrados \<Rightarrow>
               (let out' =
                  (if length puntos_iniciales_filtrados < 4 then out_write (out st) frame_actual
                   else
                     (case findHomography cv puntos_nuevos_filtrados puntos_ref_filtrados of
                        Some H \<Rightarrow> out_write (out st) (warpPerspective cv frame_actual H dsize)
                      | None \<Rightarrow> out_write (out st) frame_actual))
                in Inr \<lparr>frame_anterior_gray = frame_actual_gray,
                        puntos_iniciales = puntos_nuevos_filtrados,
                        puntos_ref = puntos_ref_filtrados,
                        out = out'\<rparr>)))"

text \<open>The \<open>while True\<close> loop: it ends when \<open>cap.read()\<close> has no frame left.\<close>

fun loop_py :: "cv2 \<Rightarrow> int \<times> int \<Rightarrow> loop_state \<Rightarrow> frame list \<Rightarrow> py_error + loop_state" where
  "loop_py cv dsize st [] = Inr st"
| "loop_py cv dsize st (frame_actual # fs) =
     (case step_py cv dsize st frame_actual of
        Inl e \<Rightarrow> Inl e
      | Inr st' \<Rightarrow> loop_py cv dsize st' fs)"

text \<open>Lines 49--59: the state with which the loop starts.\<close>

definition start_py :: "frame \<Rightarrow> point list \<Rightarrow> writer \<Rightarrow> loop_state" where
  "start_py primer_gray puntos w =
     \<lparr>frame_anterior_gray = primer_gray, puntos_iniciales = puntos, puntos_ref = puntos, out = w\<rparr>"

definition video_stabilizer_py ::
  "cv2 \<Rightarrow> capture \<Rightarrow> nat \<Rightarrow> real \<Rightarrow> real \<Rightarrow> py_error + outcome" where
  "video_stabilizer_py cv cap max_features quality_level min_distance =
     (if \<not> isOpened cap
      then Inr \<lparr>printed = No_se_pudo_abrir, salida = None, unread = remaining cap\<rparr>
      else
        (case remaining cap of
           [] \<Rightarrow> Inr \<lparr>printed = No_se_pudo_leer, salida = None, unread = []\<rparr>
         | primer_frame # rest \<Rightarrow>
             (let alto = int (rows primer_frame);
                  ancho = int (cols primer_frame);
                  w = \<lparr>w_fps = CAP_PROP_FPS cap, w_size = (ancho, alto), w_frames = [],
                       w_released = False\<rparr>;
                  primer_gray = cvtColor cv primer_frame
              in case goodFeaturesToTrack cv primer_gray max_features quality_level min_distance of
                   None \<Rightarrow> Inr \<lparr>printed = No_suficientes_puntos, salida = Some w, unread = rest\<rparr>
                 | Some puntos \<Rightarrow>
                     if length puntos < 4
                     then Inr \<lparr>printed = No_suficientes_puntos, salida = Some w, unread = rest\<rparr>
                     else
                       (case loop_py cv (ancho, alto) (start_py primer_gray puntos w) rest of
                          Inl e \<Rightarrow> Inl e
                        | Inr st \<Rightarrow>
                            Inr \<lparr>printed = Guardado,
                                 salida = Some ((out st)\<lparr>w_released := True\<rparr>),
                                 unread = []\<rparr>))))"

subsection \<open>\<open>services/stabilizer.py\<close>\<close>

text \<open>One iteration of the loop (lines 83--142).\<close>

definition step_svc :: "cv2 \<Rightarrow> int \<times> int \<Rightarrow> loop_state \<Rightarrow> frame \<Rightarrow> py_error + loop_state" where
  "step_svc cv dsize st frame_actual =
     (let frame_actual_gray = cvtColor cv frame_actual in
      case calcOpticalFlowPyrLK cv (frame_anterior_gray st) frame_actual_gray (puntos_iniciales st) of
        (None, _) \<Rightarrow>
          Inr (st\<lparr>out := out_write (out st) frame_actual, frame_anterior_gray := frame_actual_gray\<rparr>)
      | (Some puntos_nuevos, None) \<Rightarrow>
          Inr (st\<lparr>out := out_write (out st) frame_actual, frame_anterior_gray := frame_actual_gray\<rparr>)
      | (Some puntos_nuevos, Some status) \<Rightarrow>
          if length status \<noteq> length (puntos_iniciales st) \<or> length status \<noteq> length puntos_nuevos
          then Inr (st\<lparr>out := out_write (out st) frame_actual, frame_anterior_gray := frame_actual_gray\<rparr>)
          else
            (let puntos_buenos = map (\<lambda>x. x = 1) status in
             case mask_index (puntos_iniciales st) puntos_buenos of
               Inl e \<Rightarrow> Inl e
             | Inr puntos_iniciales_filtrados \<Rightarrow>
             case mask_index puntos_nuevos puntos_buenos of
               Inl e \<Rightarrow> Inl e
             | Inr puntos_nuevos_filtrados \<Rightarrow>
             case mask_index (puntos_ref st) puntos_buenos of
               Inl e \<Rightarrow> Inl e
             | Inr puntos_ref_filtrados \<Rightarrow>
               (let out' =
                  (if length puntos_iniciales_filtrados < 4 then out_write (out st) frame_actual
                   else
                     (case findHomography cv puntos_nuevos_filtrados puntos_ref_filtrados of
                        Some H \<Rightarrow> out_write (out st) (warpPerspective cv frame_actual H dsize)
                      | None \<Rightarrow> out_write (out st) frame_actual))
                in Inr \<lparr>frame_anterior_gray = frame_actual_gray,
                        puntos_iniciales = puntos_nuevos_filtrados,
                        puntos_ref = puntos_ref_filtrados,
                        out = out'\<rparr>)))"

fun loop_svc :: "cv2 \<Rightarrow> int \<times> int \<Rightarrow> loop_state \<Rightarrow> frame list \<Rightarrow> py_error + loop_state" where
  "loop_svc cv dsize st [] = Inr st"
| "loop_svc cv dsize st (frame_actual # fs) =
     (case step_svc cv dsize st frame_actual of
        Inl e \<Rightarrow> Inl e
      | Inr st' \<Rightarrow> loop_svc cv dsize st' fs)"

text \<open>
  Here the writer is constructed before the first frame is read, with the size that the
  container reports.
\<close>

definition video_stabilizer_svc ::
  "cv2 \<Rightarrow> capture \<Rightarrow> nat \<Rightarrow> real \<Rightarrow> real \<Rightarrow> py_error + outcome" where
  "video_stabilizer_svc cv cap max_features quality_level min_distance =
     (if \<not> isOpened cap
      then Inr \<lparr>printed = No_se_pudo_abrir, salida = None, unread = remaining cap\<rparr>
      else
        (let ancho = int_of_float (CAP_PROP_FRAME_WIDTH cap);
             alto = int_of_float (CAP_PROP_FRAME_HEIGHT cap);
             w = \<lparr>w_fps = CAP_PROP_FPS cap, w_size = (ancho, alto), w_frames = [],
                  w_released = False\<rparr>
         in case remaining cap of
              [] \<Rightarrow> Inr \<lparr>printed = No_se_pudo_leer, salida = Some w, unread = []\<rparr>
            | primer_frame # rest \<Rightarrow>
                (let primer_gray = cvtColor cv primer_frame
                 in case goodFeaturesToTrack cv primer_gray max_features quality_level min_distance of
                      None \<Rightarrow> Inr \<lparr>printed = No_suficientes_puntos, salida = Some w, unread = rest\<rparr>
                    | Some puntos \<Rightarrow>
                        if length puntos < 4
                        then Inr \<lparr>printed = No_suficientes_puntos, salida = Some w, unread = rest\<rparr>
                        else
                          (case loop_svc cv (ancho, alto)
                                  \<lparr>frame_anterior_gray = primer_gray, puntos_iniciales = puntos,
                                   puntos_ref = puntos, out = w\<rparr> rest of
                             Inl e \<Rightarrow> Inl e
                           | Inr st \<Rightarrow>
                               Inr \<lparr>printed = Guardado,
                                    salida = Some ((out st)\<lparr>w_released := True\<rparr>),
                                    unread = []\<rparr>))))"

section \<open>Notions used to state the properties of the event tracker\<close>

text \<open>The events of one object id, in the order of the event list.\<close>

definition events_of :: "int \<Rightarrow> detections_manager \<Rightarrow> event list" where
  "events_of t s = filter (\<lambda>e. ev_Id e = t) (events s)"

text \<open>The index of the first zone, in enumeration order, whose detections contain the id.\<close>

fun first_zone :: "int \<Rightarrow> detections list \<Rightarrow> nat option" where
  "first_zone t [] = None"
| "first_zone t (d # ds) =
     (if t \<in> set (tracker_id d) then Some 0 else map_option Suc (first_zone t ds))"

text \<open>The pass-through tags and the frame rate are the same in both trackers.\<close>

definition same_context :: "detections_manager \<Rightarrow> detections_manager \<Rightarrow> bool" where
  "same_context s s' \<longleftrightarrow>
     num_rotonda s' = num_rotonda s \<and> horario s' = horario s \<and> dia s' = dia s \<and> fps s' = fps s"

text \<open>The event that lines 135--146 build from an open record and the current exit.\<close>

definition crossing ::
  "detections_manager \<Rightarrow> int \<Rightarrow> nat \<Rightarrow> nat \<Rightarrow> real \<Rightarrow> real \<Rightarrow> string \<Rightarrow> event" where
  "crossing s tid zone_in_id zone_out_id entry_time exit_time vt =
     \<lparr>ev_Id = tid, ev_Num_rotonda = num_rotonda s, ev_horario = horario s, ev_dia = dia s,
      Id_Entrada = zone_in_id, Id_salida = zone_out_id, Tiempo_Entrada = entry_time,
      Tiempo_Salida = exit_time, Tiempo_dentro = exit_time - entry_time, Tipo_vehiculo = vt\<rparr>"

text \<open>Every open record was entered no later than \<open>T\<close>, and every event has its exit
  no earlier than its entry and the difference as its time inside.\<close>

definition times_ok :: "real \<Rightarrow> detections_manager \<Rightarrow> bool" where
  "times_ok T s \<longleftrightarrow>
     (\<forall>t z et vt. tracker_entry_info s t = Some (z, et, vt) \<longrightarrow> et \<le> T) \<and>
     (\<forall>e\<in>set (events s). Tiempo_Entrada e \<le> Tiempo_Salida e \<and>
        Tiempo_dentro e = Tiempo_Salida e - Tiempo_Entrada e)"

text \<open>\<open>1\<close> when the id has an open record, else \<open>0\<close>.\<close>

definition open_count :: "detections_manager \<Rightarrow> int \<Rightarrow> nat" where
  "open_count s t = (if tracker_entry_info s t = None then 0 else 1)"

text \<open>The number of calls of a run in which the id has no open record when the call starts
  and is observed in an entry zone, so that the call opens a fresh record for it.\<close>

fun openings :: "int \<Rightarrow> detections_manager \<Rightarrow> call list \<Rightarrow> nat" where
  "openings t s [] = 0"
| "openings t s (c # cs) =
     (case update s (c_all c) (c_in c) (c_out c) (c_time c) of
        Inl e \<Rightarrow> 0
      | Inr (s', _) \<Rightarrow>
          (if tracker_entry_info s t = None \<and> first_zone t (c_in c) \<noteq> None then 1 else 0)
          + openings t s' cs)"

text \<open>An attached \<open>vehicle_type\<close> array has an entry for every tracker id, as the
  caller builds it.\<close>

definition wf_detections :: "detections \<Rightarrow> bool" where
  "wf_detections d \<longleftrightarrow>
     (case vehicle_type d of None \<Rightarrow> True | Some v \<Rightarrow> length (tracker_id d) \<le> length v)"

definition wf_call :: "call \<Rightarrow> bool" where
  "wf_call c \<longleftrightarrow> list_all wf_detections (c_in c)"

text \<open>Small inputs: a zone with no detection, a zone with one, a call in which the id is in
  entry zone 1 only, and a call in which it is in exit zone 0 only.\<close>

definition no_detections :: detections where
  "no_detections = \<lparr>tracker_id = [], vehicle_type = None\<rparr>"

definition one_detection :: "int \<Rightarrow> string \<Rightarrow> detections" where
  "one_detection tid vt = \<lparr>tracker_id = [tid], vehicle_type = Some [vt]\<rparr>"

definition entry_call :: "int \<Rightarrow> string \<Rightarrow> real \<Rightarrow> call" where
  "entry_call tid vt ft =
     \<lparr>c_all = one_detection tid vt, c_in = [no_detections, one_detection tid vt],
      c_out = [no_detections], c_time = ft\<rparr>"

definition exit_call :: "int \<Rightarrow> string \<Rightarrow> real \<Rightarrow> call" where
  "exit_call tid vt ft =
     \<lparr>c_all = one_detection tid vt, c_in = [no_detections, no_detections],
      c_out = [one_detection tid vt], c_time = ft\<rparr>"

definition tracker0 :: detections_manager where
  "tracker0 = DetectionsManager ''1'' ''matutino'' ''lunes'' 30"

section \<open>Notions used to state the properties of the stabilizer\<close>

text \<open>The frames passed to the writer in a run, none when no writer was constructed.\<close>

definition frames_written :: "outcome \<Rightarrow> frame list" where
  "frames_written r = (case salida r of None \<Rightarrow> [] | Some w \<Rightarrow> w_frames w)"

definition frames_out :: "py_error + outcome \<Rightarrow> py_error + frame list" where
  "frames_out x = (case x of Inl e \<Rightarrow> Inl e | Inr r \<Rightarrow> Inr (frames_written r))"

text \<open>The tracked points and the reference points are equally many.\<close>

definition aligned :: "loop_state \<Rightarrow> bool" where
  "aligned st \<longleftrightarrow> length (puntos_iniciales st) = length (puntos_ref st)"

text \<open>
  Small inputs: frames of 3 rows and 4 columns, a library that finds five corners,
  tracks every point where it was and warps by resizing; one that finds three corners
  only; one whose tracker loses all points but the first three; and a capture of two
  frames whose container reports the size of the frames.
\<close>

definition frame_demo :: "nat \<Rightarrow> frame" where
  "frame_demo k = \<lparr>rows = 3, cols = 4, pixels = [k]\<rparr>"

definition puntos_demo :: "point list" where
  "puntos_demo = [(0, 0), (1, 0), (0, 1), (1, 1), (2, 2)]"

definition cv_demo :: cv2 where
  "cv_demo =
     \<lparr>cvtColor = (\<lambda>f. f),
      goodFeaturesToTrack = (\<lambda>g n q m. Some (take n puntos_demo)),
      calcOpticalFlowPyrLK = (\<lambda>p c ps. (Some ps, Some (map (\<lambda>_. 1) ps))),
      findHomography = (\<lambda>a b. Some [1, 0, 0, 0, 1, 0, 0, 0, 1]),
      warpPerspective = (\<lambda>f H sz. f\<lparr>rows := nat (snd sz), cols := nat (fst sz)\<rparr>)\<rparr>"

definition cv_few :: cv2 where
  "cv_few = cv_demo\<lparr>goodFeaturesToTrack := (\<lambda>g n q m. Some (take 3 puntos_demo))\<rparr>"

definition cv_lost :: cv2 where
  "cv_lost =
     cv_demo\<lparr>calcOpticalFlowPyrLK :=
       (\<lambda>p c ps. (Some ps, Some (map (\<lambda>i. if i < 3 then 1 else 0) [0..<length ps])))\<rparr>"

definition cap_demo :: capture where
  "cap_demo =
     \<lparr>isOpened = True, remaining = [frame_demo 0, frame_demo 1],
      CAP_PROP_FRAME_WIDTH = 4, CAP_PROP_FRAME_HEIGHT = 3, CAP_PROP_FPS = 30\<rparr>"

definition writer_demo :: writer where
  "writer_demo = \<lparr>w_fps = 30, w_size = (4, 3), w_frames = [], w_released = False\<rparr>"

section \<open>Properties of the event tracker\<close>

lemma entry_zone_frame:
  "entry_zone ts z d i tids s = Inr s' \<Longrightarrow>
     events s' = events s \<and> counts s' = counts s \<and> event_counter s' = event_counter s \<and>
     same_context s s'"
  by (induction tids arbitrary: s i) (auto simp: same_context_def split: if_splits sum.splits)

lemma entry_zone_keep:
  "entry_zone ts z d i tids s = Inr s' \<Longrightarrow> tracker_entry_info s t = Some r \<Longrightarrow>
     tracker_entry_info s' t = Some r"
proof (induction tids arbitrary: s i)
  case Nil
  then show ?case by simp
next
  case (Cons a tids)
  show ?case
  proof (cases "tracker_entry_info s a = None")
    case True
    with Cons.prems(2) have ne: "a \<noteq> t" by auto
    from True Cons.prems(1) obtain vt where
      r: "entry_zone ts z d (Suc i) tids
            (s\<lparr>tracker_entry_info := (tracker_entry_info s)(a \<mapsto> (z, ts, vt)),
               tracker_id_to_zone_id := setdefault (tracker_id_to_zone_id s) a z\<rparr>) = Inr s'"
      by (auto split: sum.splits)
    from ne Cons.prems(2) show ?thesis by (intro Cons.IH [OF r]) simp
  next
    case False
    with Cons.prems(1) have r: "entry_zone ts z d (Suc i) tids s = Inr s'" by auto
    from Cons.IH [OF r Cons.prems(2)] show ?thesis .
  qed
qed

lemma entry_zone_other:
  "entry_zone ts z d i tids s = Inr s' \<Longrightarrow> t \<notin> set tids \<Longrightarrow>
     tracker_entry_info s' t = tracker_entry_info s t"
  by (induction tids arbitrary: s i) (auto split: if_splits sum.splits)

lemma entry_zone_opens:
  "entry_zone ts z d i tids s = Inr s' \<Longrightarrow> t \<in> set tids \<Longrightarrow> tracker_entry_info s t = None \<Longrightarrow>
     \<exists>vt. tracker_entry_info s' t = Some (z, ts, vt)"
proof (induction tids arbitrary: s i)
  case Nil
  then show ?case by simp
next
  case (Cons a tids)
  show ?case
  proof (cases "a = t")
    case True
    with Cons.prems obtain vt where v: "get_vehicle_type d i = Inr vt"
      and r: "entry_zone ts z d (Suc i) tids
               (s\<lparr>tracker_entry_info := (tracker_entry_info s)(t \<mapsto> (z, ts, vt)),
                  tracker_id_to_zone_id := setdefault (tracker_id_to_zone_id s) t z\<rparr>) = Inr s'"
      by (auto split: sum.splits)
    from entry_zone_keep [OF r, of t "(z, ts, vt)"] show ?thesis by auto
  next
    case False
    with Cons.prems have tin: "t \<in> set tids" by simp
    show ?thesis
    proof (cases "tracker_entry_info s a = None")
      case True
      with Cons.prems obtain vt where
        r: "entry_zone ts z d (Suc i) tids
               (s\<lparr>tracker_entry_info := (tracker_entry_info s)(a \<mapsto> (z, ts, vt)),
                  tracker_id_to_zone_id := setdefault (tracker_id_to_zone_id s) a z\<rparr>) = Inr s'"
        by (auto split: sum.splits)
      from Cons.IH [OF r tin] False Cons.prems(3) show ?thesis by simp
    next
      case F2: False
      with Cons.prems have r: "entry_zone ts z d (Suc i) tids s = Inr s'" by auto
      from Cons.IH [OF r tin Cons.prems(3)] show ?thesis .
    qed
  qed
qed

lemma entry_phase_frame:
  "entry_phase ts z ds s = Inr s' \<Longrightarrow>
     events s' = events s \<and> counts s' = counts s \<and> event_counter s' = event_counter s \<and>
     same_context s s'"
proof (induction ds arbitrary: s z)
  case Nil
  then show ?case by (simp add: same_context_def)
next
  case (Cons d ds)
  from Cons.prems obtain s1 where a: "entry_zone ts z d 0 (tracker_id d) s = Inr s1"
    and b: "entry_phase ts (Suc z) ds s1 = Inr s'"
    by (auto split: sum.splits)
  from entry_zone_frame [OF a] Cons.IH [OF b] show ?case
    by (simp add: same_context_def)
qed

lemma entry_phase_keep:
  "entry_phase ts z ds s = Inr s' \<Longrightarrow> tracker_entry_info s t = Some r \<Longrightarrow>
     tracker_entry_info s' t = Some r"
proof (induction ds arbitrary: s z)
  case Nil
  then show ?case by simp
next
  case (Cons d ds)
  from Cons.prems obtain s1 where a: "entry_zone ts z d 0 (tracker_id d) s = Inr s1"
    and b: "entry_phase ts (Suc z) ds s1 = Inr s'"
    by (auto split: sum.splits)
  from Cons.IH [OF b entry_zone_keep [OF a Cons.prems(2)]] show ?case .
qed

lemma entry_phase_other:
  "entry_phase ts z ds s = Inr s' \<Longrightarrow> first_zone t ds = None \<Longrightarrow>
     tracker_entry_info s' t = tracker_entry_info s t"
proof (induction ds arbitrary: s z)
  case Nil
  then show ?case by simp
next
  case (Cons d ds)
  from Cons.prems obtain s1 where a: "entry_zone ts z d 0 (tracker_id d) s = Inr s1"
    and b: "entry_phase ts (Suc z) ds s1 = Inr s'"
    by (auto split: sum.splits)
  from Cons.prems(2) have n: "t \<notin> set (tracker_id d)" and f: "first_zone t ds = None"
    by (auto split: if_splits)
  from Cons.IH [OF b f] entry_zone_other [OF a n] show ?case by simp
qed

lemma entry_phase_opens:
  "entry_phase ts z ds s = Inr s' \<Longrightarrow> first_zone t ds = Some i \<Longrightarrow>
     tracker_entry_info s t = None \<Longrightarrow> \<exists>vt. tracker_entry_info s' t = Some (z + i, ts, vt)"
proof (induction ds arbitrary: s z i)
  case Nil
  then show ?case by simp
next
  case (Cons d ds)
  from Cons.prems obtain s1 where a: "entry_zone ts z d 0 (tracker_id d) s = Inr s1"
    and b: "entry_phase ts (Suc z) ds s1 = Inr s'"
    by (auto split: sum.splits)
  show ?case
  proof (cases "t \<in> set (tracker_id d)")
    case True
    with Cons.prems(2) have i0: "i = 0" by simp
    from entry_zone_opens [OF a True Cons.prems(3)] obtain vt where
      "tracker_entry_info s1 t = Some (z, ts, vt)" by blast
    from entry_phase_keep [OF b this] i0 show ?thesis by auto
  next
    case False
    with Cons.prems(2) obtain j where j: "first_zone t ds = Some j" and ij: "i = Suc j"
      by auto
    from entry_zone_other [OF a False] Cons.prems(3) have "tracker_entry_info s1 t = None"
      by simp
    from Cons.IH [OF b j this] ij show ?thesis by simp
  qed
qed

lemma crossing_context: "same_context s s' \<Longrightarrow> crossing s' = crossing s"
  by (simp add: same_context_def crossing_def fun_eq_iff)

lemma same_context_refl: "same_context s s"
  by (simp add: same_context_def)

lemma same_context_trans: "same_context a b \<Longrightarrow> same_context b c \<Longrightarrow> same_context a c"
  by (simp add: same_context_def)

lemma exit_obs_context: "same_context s (exit_obs ts z u s)"
  by (simp add: same_context_def exit_obs_def Let_def split: option.splits prod.splits)

lemma exit_obs_closed: "tracker_entry_info s u = None \<Longrightarrow> exit_obs ts z u s = s"
  by (simp add: exit_obs_def)

lemma exit_obs_open:
  "tracker_entry_info s u = Some (zi, et, vt) \<Longrightarrow>
     events (exit_obs ts z u s) = events s @ [crossing s u zi z et ts vt] \<and>
     tracker_entry_info (exit_obs ts z u s) = (tracker_entry_info s)(u := None) \<and>
     counts (exit_obs ts z u s) = counts_add (counts s) z zi u \<and>
     event_counter (exit_obs ts z u s) = event_counter s + 1"
  by (simp add: exit_obs_def crossing_def Let_def)

lemma exit_obs_other:
  "u \<noteq> t \<Longrightarrow> tracker_entry_info (exit_obs ts z u s) t = tracker_entry_info s t \<and>
     events_of t (exit_obs ts z u s) = events_of t s"
  by (cases "tracker_entry_info s u")
     (auto simp: exit_obs_closed exit_obs_open events_of_def crossing_def)

lemma exit_zone_context: "same_context s (exit_zone ts z tids s)"
proof (induction tids arbitrary: s)
  case Nil
  show ?case by (simp add: same_context_refl)
next
  case (Cons u tids)
  from same_context_trans [OF exit_obs_context Cons.IH] show ?case by simp
qed

lemma exit_zone_closed:
  "tracker_entry_info s t = None \<Longrightarrow>
     tracker_entry_info (exit_zone ts z tids s) t = None \<and>
     events_of t (exit_zone ts z tids s) = events_of t s"
proof (induction tids arbitrary: s)
  case Nil
  then show ?case by simp
next
  case (Cons u tids)
  have "tracker_entry_info (exit_obs ts z u s) t = None \<and>
        events_of t (exit_obs ts z u s) = events_of t s"
    using Cons.prems by (cases "u = t") (simp_all add: exit_obs_closed exit_obs_other)
  with Cons.IH [where s="exit_obs ts z u s"] show ?case by simp
qed

lemma exit_zone_other:
  "t \<notin> set tids \<Longrightarrow>
     tracker_entry_info (exit_zone ts z tids s) t = tracker_entry_info s t \<and>
     events_of t (exit_zone ts z tids s) = events_of t s"
proof (induction tids arbitrary: s)
  case Nil
  then show ?case by simp
next
  case (Cons u tids)
  then have "u \<noteq> t" and "t \<notin> set tids" by auto
  with Cons.IH [where s="exit_obs ts z u s"] exit_obs_other [where u=u and t=t and ts=ts and z=z and s=s] show ?case by simp
qed

lemma exit_zone_closes:
  "t \<in> set tids \<Longrightarrow> tracker_entry_info s t = Some (zi, et, vt) \<Longrightarrow>
     tracker_entry_info (exit_zone ts z tids s) t = None \<and>
     events_of t (exit_zone ts z tids s) = events_of t s @ [crossing s t zi z et ts vt]"
proof (induction tids arbitrary: s)
  case Nil
  then show ?case by simp
next
  case (Cons u tids)
  show ?case
  proof (cases "u = t")
    case True
    from exit_obs_open [OF Cons.prems(2)]
    have e: "events_of t (exit_obs ts z t s) = events_of t s @ [crossing s t zi z et ts vt]"
      and n: "tracker_entry_info (exit_obs ts z t s) t = None"
      by (simp_all add: events_of_def crossing_def)
    from exit_zone_closed [OF n, where ts=ts and z=z and tids=tids] e True show ?thesis by simp
  next
    case False
    with Cons.prems have tin: "t \<in> set tids" by simp
    from exit_obs_other [OF False, where ts=ts and z=z and s=s] Cons.prems(2)
    have o: "tracker_entry_info (exit_obs ts z u s) t = Some (zi, et, vt)"
      and e: "events_of t (exit_obs ts z u s) = events_of t s" by simp_all
    have c: "crossing (exit_obs ts z u s) = crossing s"
      by (rule crossing_context [OF exit_obs_context])
    from Cons.IH [OF tin o] e c show ?thesis by simp
  qed
qed

lemma exit_phase_context: "same_context s (exit_phase ts z ds s)"
proof (induction ds arbitrary: s z)
  case Nil
  show ?case by (simp add: same_context_refl)
next
  case (Cons d ds)
  from same_context_trans [OF exit_zone_context Cons.IH] show ?case by simp
qed

lemma exit_phase_closed:
  "tracker_entry_info s t = None \<Longrightarrow>
     tracker_entry_info (exit_phase ts z ds s) t = None \<and>
     events_of t (exit_phase ts z ds s) = events_of t s"
proof (induction ds arbitrary: s z)
  case Nil
  then show ?case by simp
next
  case (Cons d ds)
  from exit_zone_closed [OF Cons.prems, where ts=ts and z=z and tids="tracker_id d"]
    Cons.IH [where s="exit_zone ts z (tracker_id d) s" and z="Suc z"]
  show ?case by simp
qed

lemma exit_phase_other:
  "first_zone t ds = None \<Longrightarrow>
     tracker_entry_info (exit_phase ts z ds s) t = tracker_entry_info s t \<and>
     events_of t (exit_phase ts z ds s) = events_of t s"
proof (induction ds arbitrary: s z)
  case Nil
  then show ?case by simp
next
  case (Cons d ds)
  from Cons.prems have n: "t \<notin> set (tracker_id d)" and f: "first_zone t ds = None"
    by (auto split: if_splits)
  from exit_zone_other [OF n, where ts=ts and z=z and s=s] Cons.IH [OF f, where z="Suc z" and s="exit_zone ts z (tracker_id d) s"]
  show ?case by simp
qed

lemma exit_phase_closes:
  "first_zone t ds = Some j \<Longrightarrow> tracker_entry_info s t = Some (zi, et, vt) \<Longrightarrow>
     tracker_entry_info (exit_phase ts z ds s) t = None \<and>
     events_of t (exit_phase ts z ds s) = events_of t s @ [crossing s t zi (z + j) et ts vt]"
proof (induction ds arbitrary: s z j)
  case Nil
  then show ?case by simp
next
  case (Cons d ds)
  show ?case
  proof (cases "t \<in> set (tracker_id d)")
    case True
    with Cons.prems(1) have j0: "j = 0" by simp
    from exit_zone_closes [OF True Cons.prems(2), where ts=ts and z=z]
    have n: "tracker_entry_info (exit_zone ts z (tracker_id d) s) t = None"
      and e: "events_of t (exit_zone ts z (tracker_id d) s) =
              events_of t s @ [crossing s t zi z et ts vt]" by simp_all
    from exit_phase_closed [OF n, where ts=ts and z="Suc z" and ds=ds] e j0 show ?thesis by simp
  next
    case False
    with Cons.prems(1) obtain k where k: "first_zone t ds = Some k" and jk: "j = Suc k"
      by auto
    from exit_zone_other [OF False, where ts=ts and z=z and s=s] Cons.prems(2)
    have o: "tracker_entry_info (exit_zone ts z (tracker_id d) s) t = Some (zi, et, vt)"
      and e: "events_of t (exit_zone ts z (tracker_id d) s) = events_of t s" by simp_all
    have c: "crossing (exit_zone ts z (tracker_id d) s) = crossing s"
      by (rule crossing_context [OF exit_zone_context])
    from Cons.IH [OF k o, where z="Suc z"] e jk c show ?thesis by simp
  qed
qed

lemma update_Inr:
  assumes "update s a dins douts ft = Inr (s', r)"
  obtains s1 where "fps s \<noteq> 0" and "entry_phase (ft / fps s) 0 dins s = Inr s1"
    and "s' = exit_phase (ft / fps s) 0 douts s1" and "r = annotate s' a"
  using assms by (auto simp: update_def Let_def split: if_splits sum.splits)

lemma exit_zone_noop:
  "\<forall>t\<in>set tids. tracker_entry_info s t = None \<Longrightarrow> exit_zone ts z tids s = s"
  by (induction tids) (simp_all add: exit_obs_closed)

lemma exit_phase_noop:
  "\<forall>d\<in>set ds. \<forall>t\<in>set (tracker_id d). tracker_entry_info s t = None \<Longrightarrow>
     exit_phase ts z ds s = s"
  by (induction ds arbitrary: z) (simp_all add: exit_zone_noop)

lemma entry_phase_noop:
  "\<forall>d\<in>set ds. tracker_id d = [] \<Longrightarrow> entry_phase ts z ds s = Inr s"
  by (induction ds arbitrary: z) simp_all

lemma entry_zone_origin:
  "entry_zone ts z d i tids s = Inr s' \<Longrightarrow> tracker_entry_info s' t = Some (z', et, vt) \<Longrightarrow>
     tracker_entry_info s t = Some (z', et, vt) \<or> et = ts"
proof (induction tids arbitrary: s i)
  case Nil
  then show ?case by simp
next
  case (Cons a tids)
  show ?case
  proof (cases "tracker_entry_info s a = None")
    case True
    with Cons.prems(1) obtain v where
      r: "entry_zone ts z d (Suc i) tids
            (s\<lparr>tracker_entry_info := (tracker_entry_info s)(a \<mapsto> (z, ts, v)),
               tracker_id_to_zone_id := setdefault (tracker_id_to_zone_id s) a z\<rparr>) = Inr s'"
      by (auto split: sum.splits)
    from Cons.IH [OF r Cons.prems(2)] show ?thesis by (auto split: if_splits)
  next
    case False
    with Cons.prems(1) have r: "entry_zone ts z d (Suc i) tids s = Inr s'" by auto
    from Cons.IH [OF r Cons.prems(2)] show ?thesis .
  qed
qed

lemma entry_phase_origin:
  "entry_phase ts z ds s = Inr s' \<Longrightarrow> tracker_entry_info s' t = Some (z', et, vt) \<Longrightarrow>
     tracker_entry_info s t = Some (z', et, vt) \<or> et = ts"
proof (induction ds arbitrary: s z)
  case Nil
  then show ?case by simp
next
  case (Cons d ds)
  from Cons.prems obtain s1 where a: "entry_zone ts z d 0 (tracker_id d) s = Inr s1"
    and b: "entry_phase ts (Suc z) ds s1 = Inr s'"
    by (auto split: sum.splits)
  from Cons.IH [OF b Cons.prems(2)] entry_zone_origin [OF a] show ?case by blast
qed

lemma times_ok_entry:
  assumes "entry_phase ts z ds s = Inr s'" and "times_ok T s" and "T \<le> ts"
  shows "times_ok ts s'"
proof -
  have "et \<le> ts" if "tracker_entry_info s' t = Some (z', et, vt)" for t z' et vt
  proof -
    from entry_phase_origin [OF assms(1) that]
    consider "tracker_entry_info s t = Some (z', et, vt)" | "et = ts" by blast
    then show ?thesis
    proof cases
      case 1
      with assms(2) have "et \<le> T" unfolding times_ok_def by blast
      with assms(3) show ?thesis by simp
    next
      case 2
      then show ?thesis by simp
    qed
  qed
  with entry_phase_frame [OF assms(1)] assms(2) show ?thesis
    by (simp add: times_ok_def)
qed

lemma times_ok_exit_obs: "times_ok ts s \<Longrightarrow> times_ok ts (exit_obs ts z u s)"
proof (cases "tracker_entry_info s u")
  case None
  assume "times_ok ts s"
  with None show ?thesis by (simp add: exit_obs_closed)
next
  case (Some r)
  assume ok: "times_ok ts s"
  obtain zi et vt where r: "r = (zi, et, vt)" by (cases r)
  with Some have o: "tracker_entry_info s u = Some (zi, et, vt)" by simp
  with ok have "et \<le> ts" by (auto simp: times_ok_def)
  with exit_obs_open [OF o, of ts z] ok show ?thesis
    by (auto simp: times_ok_def crossing_def split: if_splits)
qed

lemma times_ok_exit_zone: "times_ok ts s \<Longrightarrow> times_ok ts (exit_zone ts z tids s)"
  by (induction tids arbitrary: s) (simp_all add: times_ok_exit_obs)

lemma times_ok_exit_phase: "times_ok ts s \<Longrightarrow> times_ok ts (exit_phase ts z ds s)"
  by (induction ds arbitrary: s z) (simp_all add: times_ok_exit_zone)

lemma update_context:
  assumes "update s a dins douts ft = Inr (s', r)"
  shows "same_context s s'"
proof -
  from assms obtain s1 where e: "entry_phase (ft / fps s) 0 dins s = Inr s1"
    and x: "s' = exit_phase (ft / fps s) 0 douts s1"
    by (rule update_Inr)
  from entry_phase_frame [OF e] have "same_context s s1" by simp
  from same_context_trans [OF this exit_phase_context] x show ?thesis by simp
qed

lemma times_ok_update:
  assumes "update s a dins douts ft = Inr (s', r)" and "times_ok T s" and "T \<le> ft / fps s"
  shows "times_ok (ft / fps s) s'"
proof -
  from assms(1) obtain s1 where e: "entry_phase (ft / fps s) 0 dins s = Inr s1"
    and x: "s' = exit_phase (ft / fps s) 0 douts s1"
    by (rule update_Inr)
  from times_ok_exit_phase [OF times_ok_entry [OF e assms(2,3)]] x show ?thesis by simp
qed

lemma times_ok_run:
  "run s cs = Inr s' \<Longrightarrow> 0 < fps s \<Longrightarrow> times_ok T s \<Longrightarrow> sorted (map c_time cs) \<Longrightarrow>
     \<forall>c\<in>set cs. T \<le> c_time c / fps s \<Longrightarrow> \<exists>T'. times_ok T' s'"
proof (induction cs arbitrary: s T)
  case Nil
  then show ?case by auto
next
  case (Cons c cs)
  from Cons.prems(1) obtain s1 r where
    u: "update s (c_all c) (c_in c) (c_out c) (c_time c) = Inr (s1, r)"
    and rr: "run s1 cs = Inr s'"
    by (auto split: sum.splits)
  from update_context [OF u] have f: "fps s1 = fps s" by (simp add: same_context_def)
  from Cons.prems(5) have "T \<le> c_time c / fps s" by simp
  from times_ok_update [OF u Cons.prems(3) this]
  have ok: "times_ok (c_time c / fps s) s1" .
  from Cons.prems(4) have srt: "sorted (map c_time cs)"
    and le: "\<forall>c'\<in>set cs. c_time c \<le> c_time c'" by auto
  have "\<forall>c'\<in>set cs. c_time c / fps s \<le> c_time c' / fps s1"
    using le Cons.prems(2) f by (simp add: divide_right_mono)
  from Cons.IH [OF rr _ ok srt this] Cons.prems(2) f show ?case by simp
qed

lemma entry_zone_returns:
  "vehicle_type d = None \<or> (\<exists>v. vehicle_type d = Some v \<and> i + length tids \<le> length v) \<Longrightarrow>
     \<exists>s'. entry_zone ts z d i tids s = Inr s'"
proof (induction tids arbitrary: s i)
  case Nil
  show ?case by simp
next
  case (Cons a tids)
  from Cons.prems obtain vt where g: "get_vehicle_type d i = Inr vt"
    by (auto simp: get_vehicle_type_def)
  from Cons.prems
  have p: "vehicle_type d = None \<or> (\<exists>v. vehicle_type d = Some v \<and> Suc i + length tids \<le> length v)"
    by auto
  from Cons.IH [OF p] g show ?case by simp
qed

lemma entry_phase_returns:
  "list_all wf_detections ds \<Longrightarrow> \<exists>s'. entry_phase ts z ds s = Inr s'"
proof (induction ds arbitrary: s z)
  case Nil
  show ?case by simp
next
  case (Cons d ds)
  from Cons.prems have "wf_detections d" and r: "list_all wf_detections ds" by simp_all
  then have "vehicle_type d = None \<or>
      (\<exists>v. vehicle_type d = Some v \<and> 0 + length (tracker_id d) \<le> length v)"
    by (auto simp: wf_detections_def split: option.splits)
  from entry_zone_returns [OF this] obtain s1 where
    "entry_zone ts z d 0 (tracker_id d) s = Inr s1" by blast
  with Cons.IH [OF r] show ?case by simp
qed

lemma update_returns:
  assumes "fps s \<noteq> 0" and "list_all wf_detections dins"
  shows "\<exists>s' r. update s a dins douts ft = Inr (s', r)"
proof -
  from entry_phase_returns [OF assms(2)] obtain s1 where
    "entry_phase (ft / fps s) 0 dins s = Inr s1" by blast
  with assms(1) show ?thesis by (simp add: update_def Let_def)
qed

lemma run_returns:
  "fps s \<noteq> 0 \<Longrightarrow> list_all wf_call cs \<Longrightarrow> \<exists>s'. run s cs = Inr s'"
proof (induction cs arbitrary: s)
  case Nil
  show ?case by simp
next
  case (Cons c cs)
  from Cons.prems have w: "list_all wf_detections (c_in c)" by (simp add: wf_call_def)
  from Cons.prems have r: "list_all wf_call cs" by simp
  from update_returns [OF Cons.prems(1) w] obtain s1 r1 where
    u: "update s (c_all c) (c_in c) (c_out c) (c_time c) = Inr (s1, r1)" by blast
  from update_context [OF u] Cons.prems(1) have "fps s1 \<noteq> 0" by (simp add: same_context_def)
  from Cons.IH [OF this r] u show ?case by simp
qed

lemma exit_obs_append: "\<exists>new. events (exit_obs ts z u s) = events s @ new"
  by (cases "tracker_entry_info s u") (auto simp: exit_obs_closed exit_obs_open)

lemma exit_zone_append: "\<exists>new. events (exit_zone ts z tids s) = events s @ new"
proof (induction tids arbitrary: s)
  case Nil
  show ?case by simp
next
  case (Cons u tids)
  from exit_obs_append obtain n1 where "events (exit_obs ts z u s) = events s @ n1" by blast
  moreover from Cons.IH obtain n2 where
    "events (exit_zone ts z tids (exit_obs ts z u s)) = events (exit_obs ts z u s) @ n2"
    by blast
  ultimately show ?case by simp
qed

lemma exit_phase_append: "\<exists>new. events (exit_phase ts z ds s) = events s @ new"
proof (induction ds arbitrary: s z)
  case Nil
  show ?case by simp
next
  case (Cons d ds)
  from exit_zone_append obtain n1 where
    "events (exit_zone ts z (tracker_id d) s) = events s @ n1" by blast
  moreover from Cons.IH obtain n2 where
    "events (exit_phase ts (Suc z) ds (exit_zone ts z (tracker_id d) s)) =
     events (exit_zone ts z (tracker_id d) s) @ n2"
    by blast
  ultimately show ?case by simp
qed

lemma update_append:
  assumes "update s a dins douts ft = Inr (s', r)"
  shows "\<exists>new. events s' = events s @ new"
proof -
  from assms obtain s1 where e: "entry_phase (ft / fps s) 0 dins s = Inr s1"
    and x: "s' = exit_phase (ft / fps s) 0 douts s1"
    by (rule update_Inr)
  from entry_phase_frame [OF e] exit_phase_append [of "ft / fps s" 0 douts s1] x
  show ?thesis by simp
qed

lemma entry_phase_open_count:
  assumes e: "entry_phase ts z ds s = Inr s1"
  shows "open_count s1 t =
           (if tracker_entry_info s t = None \<and> first_zone t ds = None then 0 else 1)"
proof (cases "tracker_entry_info s t")
  case None
  show ?thesis
  proof (cases "first_zone t ds")
    case N2: None
    from entry_phase_other [OF e N2] None N2 show ?thesis by (simp add: open_count_def)
  next
    case (Some i)
    from entry_phase_opens [OF e Some None] None Some show ?thesis
      by (auto simp: open_count_def)
  qed
next
  case (Some r)
  from entry_phase_keep [OF e Some] Some show ?thesis by (simp add: open_count_def)
qed

lemma exit_phase_balance:
  "length (events_of t (exit_phase ts z ds s)) + open_count (exit_phase ts z ds s) t =
   length (events_of t s) + open_count s t"
proof (cases "tracker_entry_info s t")
  case None
  from exit_phase_closed [OF None, where ts=ts and z=z and ds=ds] None
  show ?thesis by (simp add: open_count_def)
next
  case (Some r)
  obtain zi et vt where r: "r = (zi, et, vt)" by (cases r)
  with Some have o: "tracker_entry_info s t = Some (zi, et, vt)" by simp
  show ?thesis
  proof (cases "first_zone t ds")
    case None
    from exit_phase_other [OF None, where ts=ts and z=z and s=s]
    show ?thesis by (simp add: open_count_def)
  next
    case (Some j)
    from exit_phase_closes [OF Some o, where ts=ts and z=z] o
    show ?thesis by (simp add: open_count_def)
  qed
qed

lemma update_balance:
  assumes "update s a dins douts ft = Inr (s', r)"
  shows "length (events_of t s') + open_count s' t =
         length (events_of t s) + open_count s t +
         (if tracker_entry_info s t = None \<and> first_zone t dins \<noteq> None then 1 else 0)"
proof -
  from assms obtain s1 where e: "entry_phase (ft / fps s) 0 dins s = Inr s1"
    and x: "s' = exit_phase (ft / fps s) 0 douts s1"
    by (rule update_Inr)
  from entry_phase_frame [OF e] have ev: "events_of t s1 = events_of t s"
    by (simp add: events_of_def)
  from exit_phase_balance [of t "ft / fps s" 0 douts s1] x ev entry_phase_open_count [OF e, of t]
  show ?thesis by (auto simp: open_count_def)
qed

lemma run_balance:
  "run s cs = Inr s' \<Longrightarrow>
     \<exists>new. events s' = events s @ new \<and>
       length (filter (\<lambda>e. ev_Id e = t) new) + open_count s' t =
       open_count s t + openings t s cs"
proof (induction cs arbitrary: s)
  case Nil
  then show ?case by simp
next
  case (Cons c cs)
  from Cons.prems obtain s1 r where
    u: "update s (c_all c) (c_in c) (c_out c) (c_time c) = Inr (s1, r)"
    and rr: "run s1 cs = Inr s'"
    by (auto split: sum.splits)
  from update_append [OF u] obtain n1 where n1: "events s1 = events s @ n1" by blast
  from Cons.IH [OF rr] obtain n2 where n2: "events s' = events s1 @ n2"
    and b2: "length (filter (\<lambda>e. ev_Id e = t) n2) + open_count s' t =
             open_count s1 t + openings t s1 cs" by blast
  from update_balance [OF u, of t] n1
  have b1: "length (filter (\<lambda>e. ev_Id e = t) n1) + open_count s1 t =
            open_count s t +
            (if tracker_entry_info s t = None \<and> first_zone t (c_in c) \<noteq> None then 1 else 0)"
    by (simp add: events_of_def)
  have "events s' = events s @ (n1 @ n2)" using n1 n2 by simp
  moreover have "length (filter (\<lambda>e. ev_Id e = t) (n1 @ n2)) + open_count s' t =
       open_count s t + openings t s (c # cs)"
    using b1 b2 u by simp
  ultimately show ?case by blast
qed

lemmas tracker_eval =
  update_def Let_def DetectionsManager_def get_vehicle_type_def setdefault_def exit_obs_def
  counts_add_def no_detections_def one_detection_def entry_call_def exit_call_def tracker0_def

lemma entry_then_exit:
  "f \<noteq> 0 \<Longrightarrow>
     \<exists>s'. run (DetectionsManager nr h d f) [entry_call tid vt ft1, exit_call tid vt ft2] = Inr s' \<and>
       events s' =
         [\<lparr>ev_Id = tid, ev_Num_rotonda = nr, ev_horario = h, ev_dia = d, Id_Entrada = 1,
           Id_salida = 0, Tiempo_Entrada = ft1 / f, Tiempo_Salida = ft2 / f,
           Tiempo_dentro = ft2 / f - ft1 / f, Tipo_vehiculo = vt\<rparr>]"
  by (simp add: tracker_eval)

lemma update_keep:
  assumes "update s a dins douts ft = Inr (s', r)"
    and "tracker_entry_info s t = Some (zi, et, vt)" and "first_zone t douts = None"
  shows "tracker_entry_info s' t = Some (zi, et, vt) \<and> events_of t s' = events_of t s"
proof -
  from assms(1) obtain s1 where e: "entry_phase (ft / fps s) 0 dins s = Inr s1"
    and x: "s' = exit_phase (ft / fps s) 0 douts s1"
    by (rule update_Inr)
  from entry_phase_frame [OF e] have ev1: "events_of t s1 = events_of t s"
    by (simp add: events_of_def)
  from entry_phase_keep [OF e assms(2)]
    exit_phase_other [OF assms(3), where ts="ft / fps s" and z=0 and s=s1] x ev1
  show ?thesis by simp
qed

lemma update_opens:
  assumes "update s a dins douts ft = Inr (s', r)"
    and "tracker_entry_info s t = None" and "first_zone t dins = Some i"
    and "first_zone t douts = None"
  shows "(\<exists>v. tracker_entry_info s' t = Some (i, ft / fps s, v)) \<and>
         events_of t s' = events_of t s"
proof -
  from assms(1) obtain s1 where e: "entry_phase (ft / fps s) 0 dins s = Inr s1"
    and x: "s' = exit_phase (ft / fps s) 0 douts s1"
    by (rule update_Inr)
  from entry_phase_frame [OF e] have ev1: "events_of t s1 = events_of t s"
    by (simp add: events_of_def)
  from entry_phase_opens [OF e assms(3) assms(2)]
    exit_phase_other [OF assms(4), where ts="ft / fps s" and z=0 and s=s1] x ev1
  show ?thesis by simp
qed

lemma update_closes:
  assumes "update s a dins douts ft = Inr (s', r)"
    and "tracker_entry_info s t = Some (zi, et, vt)" and "first_zone t douts = Some j"
  shows "tracker_entry_info s' t = None \<and>
         events_of t s' = events_of t s @ [crossing s t zi j et (ft / fps s) vt]"
proof -
  from assms(1) obtain s1 where e: "entry_phase (ft / fps s) 0 dins s = Inr s1"
    and x: "s' = exit_phase (ft / fps s) 0 douts s1"
    by (rule update_Inr)
  from entry_phase_frame [OF e] have ev1: "events_of t s1 = events_of t s"
    and cx: "crossing s1 = crossing s"
    by (simp_all add: events_of_def crossing_context)
  from exit_phase_closes [OF assms(3) entry_phase_keep [OF e assms(2)],
      where ts="ft / fps s" and z=0] x ev1 cx
  show ?thesis by simp
qed

lemma update_same_frame:
  assumes "update s a dins douts ft = Inr (s', r)"
    and "tracker_entry_info s t = None" and "first_zone t dins = Some i"
    and "first_zone t douts = Some j"
  shows "tracker_entry_info s' t = None \<and>
         (\<exists>v. events_of t s' =
               events_of t s @ [crossing s t i j (ft / fps s) (ft / fps s) v])"
proof -
  from assms(1) obtain s1 where e: "entry_phase (ft / fps s) 0 dins s = Inr s1"
    and x: "s' = exit_phase (ft / fps s) 0 douts s1"
    by (rule update_Inr)
  from entry_phase_frame [OF e] have ev1: "events_of t s1 = events_of t s"
    and cx: "crossing s1 = crossing s"
    by (simp_all add: events_of_def crossing_context)
  from entry_phase_opens [OF e assms(3) assms(2)] obtain v where
    o: "tracker_entry_info s1 t = Some (i, ft / fps s, v)" by auto
  from exit_phase_closes [OF assms(4) o, where ts="ft / fps s" and z=0] x ev1 cx
  show ?thesis by auto
qed

lemma openings_none:
  "\<forall>c\<in>set cs. first_zone t (c_in c) = None \<Longrightarrow> openings t s cs = 0"
  by (induction cs arbitrary: s) (auto split: sum.splits)

lemma run_fps_zero: "fps s = 0 \<Longrightarrow> run s cs = Inr s' \<Longrightarrow> s' = s"
  by (cases cs) (simp_all add: update_def)

section \<open>The claims about the event tracker\<close>

text \<open>
  C2. Along any sequence of \<open>update\<close> calls the event list only grows, and for every
  object id the number of events emitted for it, plus one if it still has an open record
  at the end, equals one if it had an open record at the start plus the number of calls
  that opened a fresh record for it: every event consumes one open record. In particular
  an id without an open record that is not observed in any entry zone gets no event.
\<close>

theorem one_event_per_open_record:
  assumes "run s cs = Inr s'"
  shows "\<exists>new. events s' = events s @ new \<and>
           length (filter (\<lambda>e. ev_Id e = t) new) + open_count s' t =
             open_count s t + openings t s cs \<and>
           (tracker_entry_info s t = None \<and> (\<forall>c\<in>set cs. first_zone t (c_in c) = None) \<longrightarrow>
              filter (\<lambda>e. ev_Id e = t) new = [])"
proof -
  from run_balance [OF assms] obtain new where n: "events s' = events s @ new"
    and b: "length (filter (\<lambda>e. ev_Id e = t) new) + open_count s' t =
            open_count s t + openings t s cs" by blast
  have "filter (\<lambda>e. ev_Id e = t) new = []"
    if "tracker_entry_info s t = None" "\<forall>c\<in>set cs. first_zone t (c_in c) = None"
    using b openings_none [OF that(2)] that(1) by (simp add: open_count_def)
  with n b show ?thesis by (intro exI [where x=new]) simp
qed

theorem one_event_per_open_record_witness:
  "(\<exists>s' new. run tracker0 [entry_call 7 ''car'' 30, exit_call 7 ''car'' 90,
                            exit_call 7 ''car'' 120] = Inr s' \<and>
      events s' = events tracker0 @ new \<and>
      length (filter (\<lambda>e. ev_Id e = 7) new) + open_count s' 7 = 1) \<and>
   (\<exists>s' new. run tracker0 [exit_call 7 ''car'' 120] = Inr s' \<and>
      events s' = events tracker0 @ new \<and> filter (\<lambda>e. ev_Id e = 7) new = [])"
proof -
  let ?cs = "[entry_call 7 ''car'' 30, exit_call 7 ''car'' 90, exit_call 7 ''car'' 120]"
  have "\<exists>s'. run tracker0 ?cs = Inr s'"
    by (rule run_returns) (simp_all add: tracker_eval wf_call_def wf_detections_def)
  then obtain s1 where r1: "run tracker0 ?cs = Inr s1" by blast
  have o: "openings 7 tracker0 ?cs = 1" by (simp add: tracker_eval)
  have c: "open_count tracker0 7 = 0" by (simp add: open_count_def tracker_eval)
  from one_event_per_open_record [OF r1, where t=7] o c r1 have A:
    "\<exists>s' new. run tracker0 ?cs = Inr s' \<and> events s' = events tracker0 @ new \<and>
       length (filter (\<lambda>e. ev_Id e = 7) new) + open_count s' 7 = 1"
    by auto
  have "\<exists>s'. run tracker0 [exit_call 7 ''car'' 120] = Inr s'"
    by (rule run_returns) (simp_all add: tracker_eval wf_call_def wf_detections_def)
  then obtain s2 where r2: "run tracker0 [exit_call 7 ''car'' 120] = Inr s2" by blast
  have h1: "tracker_entry_info tracker0 7 = None" by (simp add: tracker_eval)
  have h2: "\<forall>c\<in>set [exit_call 7 ''car'' 120]. first_zone 7 (c_in c) = None"
    by (simp add: tracker_eval)
  from one_event_per_open_record [OF r2, where t=7] h1 h2 r2 have B:
    "\<exists>s' new. run tracker0 [exit_call 7 ''car'' 120] = Inr s' \<and>
       events s' = events tracker0 @ new \<and> filter (\<lambda>e. ev_Id e = 7) new = []"
    by auto
  from A B show ?thesis by blast
qed

text \<open>
  C3. With \<open>fps = 30\<close>, object id 7 in entry zone 1 at frame time 30 and in exit zone 0
  at frame time 90 produces exactly one event, with entry zone 1, exit zone 0, entry time
  1, exit time 3 and time inside 2. For any nonzero \<open>fps\<close> the entry and exit times are
  the frame times divided by \<open>fps\<close> and the time inside is their difference. An id
  without an open record that is observed in an entry zone and in an exit zone in the same
  call gets one event with equal entry and exit times and time inside 0.
\<close>

theorem crossing_times:
  "(\<exists>s'. run (DetectionsManager nr h d 30) [entry_call 7 vt 30, exit_call 7 vt 90] = Inr s' \<and>
      events s' =
        [\<lparr>ev_Id = 7, ev_Num_rotonda = nr, ev_horario = h, ev_dia = d, Id_Entrada = 1,
          Id_salida = 0, Tiempo_Entrada = 1, Tiempo_Salida = 3, Tiempo_dentro = 2,
          Tipo_vehiculo = vt\<rparr>]) \<and>
   (f \<noteq> 0 \<longrightarrow>
      (\<exists>s'. run (DetectionsManager nr h d f) [entry_call tid vt ft1, exit_call tid vt ft2] = Inr s' \<and>
         events s' =
           [\<lparr>ev_Id = tid, ev_Num_rotonda = nr, ev_horario = h, ev_dia = d, Id_Entrada = 1,
             Id_salida = 0, Tiempo_Entrada = ft1 / f, Tiempo_Salida = ft2 / f,
             Tiempo_dentro = ft2 / f - ft1 / f, Tipo_vehiculo = vt\<rparr>])) \<and>
   (update s a dins douts ft = Inr (s', r) \<and> tracker_entry_info s t = None \<and>
    first_zone t dins = Some i \<and> first_zone t douts = Some j \<longrightarrow>
      (\<exists>e. events_of t s' = events_of t s @ [e] \<and> Id_Entrada e = i \<and> Id_salida e = j \<and>
           Tiempo_Entrada e = ft / fps s \<and> Tiempo_Salida e = ft / fps s \<and>
           Tiempo_dentro e = 0))"
proof -
  have A: "\<exists>s'. run (DetectionsManager nr h d 30) [entry_call 7 vt 30, exit_call 7 vt 90] = Inr s' \<and>
      events s' =
        [\<lparr>ev_Id = 7, ev_Num_rotonda = nr, ev_horario = h, ev_dia = d, Id_Entrada = 1,
          Id_salida = 0, Tiempo_Entrada = 1, Tiempo_Salida = 3, Tiempo_dentro = 2,
          Tipo_vehiculo = vt\<rparr>]"
    using entry_then_exit [where f=30 and nr=nr and h=h and d=d and tid=7 and vt=vt
        and ?ft1.0=30 and ?ft2.0=90]
    by simp
  have C: "\<exists>e. events_of t s' = events_of t s @ [e] \<and> Id_Entrada e = i \<and> Id_salida e = j \<and>
           Tiempo_Entrada e = ft / fps s \<and> Tiempo_Salida e = ft / fps s \<and>
           Tiempo_dentro e = 0"
    if "update s a dins douts ft = Inr (s', r)" "tracker_entry_info s t = None"
      "first_zone t dins = Some i" "first_zone t douts = Some j"
    using update_same_frame [OF that] by (auto simp: crossing_def)
  from A C entry_then_exit [where f=f and nr=nr and h=h and d=d and tid=tid and vt=vt
      and ?ft1.0=ft1 and ?ft2.0=ft2]
  show ?thesis by blast
qed

theorem crossing_times_witness:
  "(\<exists>s'. run (DetectionsManager ''1'' ''matutino'' ''lunes'' 25)
            [entry_call 3 ''car'' 50, exit_call 3 ''car'' 100] = Inr s' \<and>
      events s' =
        [\<lparr>ev_Id = 3, ev_Num_rotonda = ''1'', ev_horario = ''matutino'', ev_dia = ''lunes'',
          Id_Entrada = 1, Id_salida = 0, Tiempo_Entrada = 2, Tiempo_Salida = 4,
          Tiempo_dentro = 2, Tipo_vehiculo = ''car''\<rparr>]) \<and>
   (\<exists>s' r e. update tracker0 (one_detection 7 ''car'')
        [no_detections, one_detection 7 ''car''] [one_detection 7 ''car''] 60 = Inr (s', r) \<and>
      events_of 7 s' = [e] \<and> Id_Entrada e = 1 \<and> Id_salida e = 0 \<and>
      Tiempo_Entrada e = 2 \<and> Tiempo_Salida e = 2 \<and> Tiempo_dentro e = 0)"
proof -
  have A: "\<exists>s'. run (DetectionsManager ''1'' ''matutino'' ''lunes'' 25)
            [entry_call 3 ''car'' 50, exit_call 3 ''car'' 100] = Inr s' \<and>
      events s' =
        [\<lparr>ev_Id = 3, ev_Num_rotonda = ''1'', ev_horario = ''matutino'', ev_dia = ''lunes'',
          Id_Entrada = 1, Id_salida = 0, Tiempo_Entrada = 2, Tiempo_Salida = 4,
          Tiempo_dentro = 2, Tipo_vehiculo = ''car''\<rparr>]"
    using crossing_times [where f=25 and nr="''1''" and h="''matutino''" and d="''lunes''"
        and tid=3 and vt="''car''" and ?ft1.0=50 and ?ft2.0=100]
    by simp
  let ?dins = "[no_detections, one_detection 7 ''car'']"
  let ?douts = "[one_detection 7 ''car'']"
  have "\<exists>s' r. update tracker0 (one_detection 7 ''car'') ?dins ?douts 60 = Inr (s', r)"
    by (rule update_returns) (simp_all add: tracker_eval wf_detections_def)
  then obtain s' r where
    u: "update tracker0 (one_detection 7 ''car'') ?dins ?douts 60 = Inr (s', r)" by blast
  have h: "tracker_entry_info tracker0 7 = None" "first_zone 7 ?dins = Some 1"
    "first_zone 7 ?douts = Some 0" "events_of 7 tracker0 = []" "60 / fps tracker0 = 2"
    by (simp_all add: tracker_eval events_of_def)
  from crossing_times [where s=tracker0 and a="one_detection 7 ''car''" and dins="?dins"
      and douts="?douts" and ft=60 and s'=s' and r=r and t=7 and i=1 and j=0] u h
  have "\<exists>e. events_of 7 s' = [e] \<and> Id_Entrada e = 1 \<and> Id_salida e = 0 \<and>
      Tiempo_Entrada e = 2 \<and> Tiempo_Salida e = 2 \<and> Tiempo_dentro e = 0"
    by simp
  with u A show ?thesis by blast
qed

text \<open>
  C4, as stated: a tracker constructed with the frame rate \<open>-30\<close> and called with
  the nondecreasing frame times 30 and 90, the id in entry zone 1 and then in exit zone
  0, emits one event with entry time \<open>-1\<close>, exit time \<open>-3\<close> and time inside \<open>-2\<close>:
  the exit time is earlier than the entry time.
\<close>

theorem negative_fps_exit_before_entry:
  "map_sum id events
     (run (DetectionsManager ''1'' ''matutino'' ''lunes'' (- 30))
        [entry_call 7 ''car'' 30, exit_call 7 ''car'' 90]) =
     Inr [\<lparr>ev_Id = 7, ev_Num_rotonda = ''1'', ev_horario = ''matutino'', ev_dia = ''lunes'',
           Id_Entrada = 1, Id_salida = 0, Tiempo_Entrada = - 1, Tiempo_Salida = - 3,
           Tiempo_dentro = - 2, Tipo_vehiculo = ''car''\<rparr>] \<and>
   sorted (map c_time [entry_call 7 ''car'' 30, exit_call 7 ''car'' 90])"
  by (simp add: tracker_eval)

text \<open>
  C4, amended. When the frame rate given to the constructor is not negative and the
  frame times of the calls are nondecreasing, every event emitted since the tracker was
  constructed has its exit time no earlier than its entry time, and a time inside that
  is not negative. (With a frame rate of zero the first call raises and no event
  exists.)
\<close>

theorem exit_not_before_entry:
  assumes "0 \<le> f" and "sorted (map c_time cs)"
    and "run (DetectionsManager nr h d f) cs = Inr s'"
  shows "\<forall>e\<in>set (events s'). Tiempo_Entrada e \<le> Tiempo_Salida e \<and> 0 \<le> Tiempo_dentro e"
proof (cases "f = 0")
  case True
  let ?s = "DetectionsManager nr h d f"
  from True have "fps ?s = 0" by (simp add: DetectionsManager_def)
  from run_fps_zero [OF this assms(3)] show ?thesis by (simp add: DetectionsManager_def)
next
  case False
  with assms(1) have pos: "0 < f" by simp
  let ?s = "DetectionsManager nr h d f"
  have f: "fps ?s = f" by (simp add: DetectionsManager_def)
  define T where "T = (case cs of [] \<Rightarrow> 0 | c # _ \<Rightarrow> c_time c / f)"
  have ok: "times_ok T ?s" by (simp add: times_ok_def DetectionsManager_def)
  have "\<forall>c\<in>set cs. T \<le> c_time c / fps ?s"
  proof (cases cs)
    case Nil
    then show ?thesis by simp
  next
    case (Cons c cs')
    with assms(2) have "\<forall>c'\<in>set cs. c_time c \<le> c_time c'" by auto
    with Cons pos f show ?thesis by (simp add: T_def divide_right_mono)
  qed
  from times_ok_run [OF assms(3) _ ok assms(2) this] pos f
  obtain T' where "times_ok T' s'" by auto
  then show ?thesis by (auto simp: times_ok_def)
qed

theorem exit_not_before_entry_witness:
  "\<exists>s' e. run (DetectionsManager ''1'' ''matutino'' ''lunes'' 30)
             [entry_call 7 ''car'' 30, exit_call 7 ''car'' 90] = Inr s' \<and>
     events s' = [e] \<and> Tiempo_Entrada e \<le> Tiempo_Salida e \<and> 0 \<le> Tiempo_dentro e"
proof -
  let ?cs = "[entry_call 7 ''car'' 30, exit_call 7 ''car'' 90]"
  from entry_then_exit [where f=30 and nr="''1''" and h="''matutino''" and d="''lunes''"
      and tid=7 and vt="''car''" and ?ft1.0=30 and ?ft2.0=90]
  obtain s' e where r: "run (DetectionsManager ''1'' ''matutino'' ''lunes'' 30) ?cs = Inr s'"
    and ev: "events s' = [e]" by auto
  have srt: "sorted (map c_time ?cs)" by (simp add: entry_call_def exit_call_def)
  have pos: "(0::real) \<le> 30" by simp
  from exit_not_before_entry [OF pos srt r] ev
  have "Tiempo_Entrada e \<le> Tiempo_Salida e \<and> 0 \<le> Tiempo_dentro e" by simp
  with r ev show ?thesis by blast
qed

text \<open>
  C5. An exit observation for an id without an open record leaves the tracker as it is.
  A call in which no entry zone holds a detection and every id seen in an exit zone has
  no open record returns the tracker unchanged: the event list, the counts and the open
  records are those of before.
\<close>

theorem orphan_exit_is_noop:
  "(tracker_entry_info s tid = None \<longrightarrow> exit_obs time_seconds zone_out_id tid s = s) \<and>
   (fps s \<noteq> 0 \<and> (\<forall>d\<in>set dins. tracker_id d = []) \<and>
    (\<forall>d\<in>set douts. \<forall>t\<in>set (tracker_id d). tracker_entry_info s t = None) \<longrightarrow>
      update s a dins douts ft = Inr (s, annotate s a))"
  by (simp add: exit_obs_closed update_def entry_phase_noop exit_phase_noop)

theorem orphan_exit_is_noop_witness:
  "exit_obs (1 / 3) 2 9 tracker0 = tracker0 \<and>
   update tracker0 (one_detection 9 ''car'') [no_detections, no_detections, no_detections]
     [no_detections, no_detections, one_detection 9 ''car''] 10 =
     Inr (tracker0, annotate tracker0 (one_detection 9 ''car''))"
  using orphan_exit_is_noop [where s=tracker0 and tid=9 and time_seconds="1 / 3"
      and zone_out_id=2 and a="one_detection 9 ''car''"
      and dins="[no_detections, no_detections, no_detections]"
      and douts="[no_detections, no_detections, one_detection 9 ''car'']" and ft=10]
  by (simp add: tracker0_def DetectionsManager_def no_detections_def one_detection_def)

text \<open>
  C9. Within one call, for every object id: an open record is not touched by entry
  observations, and survives the call when the id is in no exit zone; an id without an
  open record gets one with the index of the first entry zone that holds it; and when the
  id is in some exit zone, exactly one event is appended for it, with the index of the
  first exit zone that holds it, and its record is deleted, whatever later exit zones
  hold.
\<close>

theorem first_zone_wins:
  assumes u: "update s a dins douts ft = Inr (s', r)"
  shows
    "(tracker_entry_info s t = Some (zi, et, vt) \<and> first_zone t douts = None \<longrightarrow>
        tracker_entry_info s' t = Some (zi, et, vt) \<and> events_of t s' = events_of t s) \<and>
     (tracker_entry_info s t = None \<and> first_zone t dins = Some i \<and> first_zone t douts = None \<longrightarrow>
        (\<exists>v. tracker_entry_info s' t = Some (i, ft / fps s, v)) \<and>
        events_of t s' = events_of t s) \<and>
     (tracker_entry_info s t = Some (zi, et, vt) \<and> first_zone t douts = Some j \<longrightarrow>
        tracker_entry_info s' t = None \<and>
        events_of t s' = events_of t s @ [crossing s t zi j et (ft / fps s) vt]) \<and>
     (tracker_entry_info s t = None \<and> first_zone t dins = Some i \<and> first_zone t douts = Some j \<longrightarrow>
        tracker_entry_info s' t = None \<and>
        (\<exists>v. events_of t s' =
               events_of t s @ [crossing s t i j (ft / fps s) (ft / fps s) v]))"
  using update_keep [OF u] update_opens [OF u] update_closes [OF u] update_same_frame [OF u]
  by blast

theorem first_zone_wins_witness:
  "\<exists>s' r v. update tracker0 (one_detection 5 ''car'')
       [one_detection 5 ''car'', no_detections, one_detection 5 ''bus'']
       [no_detections, one_detection 5 ''car'', one_detection 5 ''car''] 60 = Inr (s', r) \<and>
     tracker_entry_info s' 5 = None \<and>
     events_of 5 s' = [crossing tracker0 5 0 1 2 2 v]"
proof -
  let ?a = "one_detection 5 ''car''"
  let ?dins = "[one_detection 5 ''car'', no_detections, one_detection 5 ''bus'']"
  let ?douts = "[no_detections, one_detection 5 ''car'', one_detection 5 ''car'']"
  have "\<exists>s' r. update tracker0 ?a ?dins ?douts 60 = Inr (s', r)"
    by (rule update_returns) (simp_all add: tracker_eval wf_detections_def)
  then obtain s' r where u: "update tracker0 ?a ?dins ?douts 60 = Inr (s', r)" by blast
  have h: "tracker_entry_info tracker0 5 = None" "first_zone 5 ?dins = Some 0"
    "first_zone 5 ?douts = Some 1" "events_of 5 tracker0 = []" "60 / fps tracker0 = 2"
    by (simp_all add: tracker_eval events_of_def)
  from first_zone_wins [OF u, where t=5 and i=0 and j=1] h
  have "tracker_entry_info s' 5 = None \<and>
        (\<exists>v. events_of 5 s' = [crossing tracker0 5 0 1 2 2 v])"
    by simp
  with u show ?thesis by blast
qed

section \<open>Properties of the stabilizer\<close>

lemma length_mask_select:
  "length xs = length m \<Longrightarrow> length (mask_select xs m) = length (filter (\<lambda>b. b) m)"
  by (induction xs m rule: list_induct2) (simp_all add: mask_select_def)

lemma step_py_cases:
  assumes "aligned st"
  shows "\<exists>st' g. step_py cv dsize st f = Inr st' \<and> aligned st' \<and>
           out st' = out_write (out st) g"
proof -
  obtain pn status where c:
    "calcOpticalFlowPyrLK cv (frame_anterior_gray st) (cvtColor cv f) (puntos_iniciales st) =
       (pn, status)" by (cases "calcOpticalFlowPyrLK cv (frame_anterior_gray st) (cvtColor cv f) (puntos_iniciales st)")
  show ?thesis
  proof (cases pn)
    case None
    with c assms show ?thesis by (auto simp: step_py_def aligned_def)
  next
    case (Some p)
    note p = this
    show ?thesis
    proof (cases status)
      case None
      with c p assms show ?thesis by (auto simp: step_py_def aligned_def)
    next
      case (Some stt)
      show ?thesis
      proof (cases "length stt \<noteq> length (puntos_iniciales st) \<or> length stt \<noteq> length p")
        case True
        with c p Some assms show ?thesis by (auto simp: step_py_def aligned_def)
      next
        case False
        then have l1: "length stt = length (puntos_iniciales st)" and l2: "length stt = length p"
          by simp_all
        from l1 assms have l3: "length stt = length (puntos_ref st)" by (simp add: aligned_def)
        have e: "length (mask_select p (map (\<lambda>x. x = 1) stt)) =
                 length (mask_select (puntos_ref st) (map (\<lambda>x. x = 1) stt))"
          using l2 l3 by (simp add: length_mask_select)
        from c p Some l1 l2 l3 e show ?thesis
          by (auto simp: step_py_def aligned_def mask_index_def Let_def split: option.splits)
      qed
    qed
  qed
qed

lemma loop_py_cases:
  "aligned st \<Longrightarrow>
     \<exists>st'. loop_py cv dsize st fs = Inr st' \<and> aligned st' \<and>
       length (w_frames (out st')) = length (w_frames (out st)) + length fs"
proof (induction fs arbitrary: st)
  case Nil
  then show ?case by simp
next
  case (Cons f fs)
  from step_py_cases [OF Cons.prems, of cv dsize f] obtain st1 g where
    s: "step_py cv dsize st f = Inr st1" and a: "aligned st1"
    and o: "out st1 = out_write (out st) g" by blast
  from Cons.IH [OF a] obtain st' where l: "loop_py cv dsize st1 fs = Inr st'"
    and a': "aligned st'"
    and n: "length (w_frames (out st')) = length (w_frames (out st1)) + length fs" by blast
  from s l a' n o show ?case by (simp add: out_write_def)
qed

lemma aligned_start_py: "aligned (start_py g puntos w)"
  by (simp add: aligned_def start_py_def)

lemma video_stabilizer_py_length:
  assumes "isOpened cap" and "remaining cap = primer_frame # rest"
    and "goodFeaturesToTrack cv (cvtColor cv primer_frame) mf ql md = Some puntos"
    and "4 \<le> length puntos"
  shows "\<exists>r. video_stabilizer_py cv cap mf ql md = Inr r \<and> printed r = Guardado \<and>
           length (frames_written r) = length rest"
proof -
  let ?w = "\<lparr>w_fps = CAP_PROP_FPS cap,
             w_size = (int (cols primer_frame), int (rows primer_frame)),
             w_frames = [], w_released = False\<rparr>"
  from loop_py_cases [OF aligned_start_py,
      of cv "(int (cols primer_frame), int (rows primer_frame))" "cvtColor cv primer_frame"
        puntos ?w rest]
  obtain st where
    "loop_py cv (int (cols primer_frame), int (rows primer_frame))
       (start_py (cvtColor cv primer_frame) puntos ?w) rest = Inr st"
    and "length (w_frames (out st)) = length rest"
    by (auto simp: start_py_def)
  with assms show ?thesis
    by (simp add: video_stabilizer_py_def Let_def frames_written_def)
qed

lemma step_svc_eq: "step_svc cv dsize st f = step_py cv dsize st f"
  by (simp add: step_svc_def step_py_def)

lemma loop_svc_eq: "loop_svc cv dsize st fs = loop_py cv dsize st fs"
  by (induction fs arbitrary: st) (auto simp: step_svc_eq split: sum.splits)

lemmas stab_eval =
  video_stabilizer_py_def video_stabilizer_svc_def step_py_def step_svc_def start_py_def
  Let_def mask_index_def mask_select_def out_write_def int_of_float_def frames_written_def
  frames_out_def cv_demo_def cv_few_def cv_lost_def cap_demo_def frame_demo_def
  puntos_demo_def writer_demo_def

section \<open>The claims about the stabilizer\<close>

text \<open>
  C1. On a capture of two frames in which five corners are found, the run completes and
  the writer has received one frame: the first frame is read and used as the anchor, and
  is never written.
\<close>

theorem first_frame_not_written:
  "video_stabilizer_py cv_demo cap_demo 200 (1 / 100) 15 =
     Inr \<lparr>printed = Guardado,
          salida = Some \<lparr>w_fps = 30, w_size = (4, 3), w_frames = [frame_demo 1],
                         w_released = True\<rparr>,
          unread = []\<rparr> \<and>
   length (remaining cap_demo) = 2"
  by (simp add: stab_eval)

text \<open>
  C6, as stated: with three corners in the first frame the function raises nothing; it
  returns, leaving behind the writer it has already constructed, unreleased and without
  frames.
\<close>

theorem few_features_no_error:
  "video_stabilizer_py cv_few cap_demo 200 (1 / 100) 15 =
     Inr \<lparr>printed = No_suficientes_puntos, salida = Some writer_demo,
          unread = [frame_demo 1]\<rparr>"
  by (simp add: stab_eval)

text \<open>
  C6, amended. When the capture opens, the first frame is read and the corner detector
  returns nothing or fewer than four points, the function prints the message about
  insufficient points and returns without raising; it reads no further frame and no
  frame is written.
\<close>

theorem few_features_abort:
  assumes "isOpened cap" and "remaining cap = primer_frame # rest"
    and "goodFeaturesToTrack cv (cvtColor cv primer_frame) mf ql md = None \<or>
         (\<exists>puntos. goodFeaturesToTrack cv (cvtColor cv primer_frame) mf ql md = Some puntos \<and>
            length puntos < 4)"
  shows "\<exists>r. video_stabilizer_py cv cap mf ql md = Inr r \<and>
           printed r = No_suficientes_puntos \<and> frames_written r = [] \<and> unread r = rest"
  using assms by (auto simp: video_stabilizer_py_def Let_def frames_written_def)

theorem few_features_abort_witness:
  "\<exists>r. video_stabilizer_py cv_few cap_demo 200 (1 / 100) 15 = Inr r \<and>
     printed r = No_suficientes_puntos \<and> frames_written r = [] \<and>
     unread r = [frame_demo 1]"
  using few_features_abort [where cap=cap_demo and cv=cv_few and primer_frame="frame_demo 0"
      and rest="[frame_demo 1]" and mf=200 and ql="1 / 100" and md=15]
  by (simp add: cap_demo_def cv_few_def cv_demo_def puntos_demo_def)

text \<open>
  C7. In a state with as many reference points as tracked points, when the tracker
  returns positions and flags of consistent lengths and fewer than four flags equal 1,
  the iteration raises nothing, writes the frame it read, unchanged, and continues with
  the new positions and the reference points of the flagged indices; the result does not
  depend on the homography estimator.
\<close>

theorem few_survivors_pass_through:
  assumes "calcOpticalFlowPyrLK cv (frame_anterior_gray st) (cvtColor cv f) (puntos_iniciales st) =
             (Some puntos_nuevos, Some status)"
    and "length status = length (puntos_iniciales st)"
    and "length status = length puntos_nuevos"
    and "length (puntos_ref st) = length (puntos_iniciales st)"
    and "length (filter (\<lambda>x. x = 1) status) < 4"
  shows "step_py cv dsize st f =
           Inr \<lparr>frame_anterior_gray = cvtColor cv f,
                puntos_iniciales = mask_select puntos_nuevos (map (\<lambda>x. x = 1) status),
                puntos_ref = mask_select (puntos_ref st) (map (\<lambda>x. x = 1) status),
                out = out_write (out st) f\<rparr> \<and>
         step_py (cv\<lparr>findHomography := h\<rparr>) dsize st f = step_py cv dsize st f"
proof -
  have "length (mask_select (puntos_iniciales st) (map (\<lambda>x. x = 1) status)) =
        length (filter (\<lambda>b. b) (map (\<lambda>x. x = 1) status))"
    using assms(2) by (simp add: length_mask_select)
  also have "\<dots> = length (filter (\<lambda>x. x = 1) status)"
    by (simp add: filter_map comp_def)
  finally have "length (mask_select (puntos_iniciales st) (map (\<lambda>x. x = 1) status)) < 4"
    using assms(5) by simp
  with assms(1-4) show ?thesis
    by (simp add: step_py_def mask_index_def Let_def)
qed

theorem few_survivors_pass_through_witness:
  "step_py cv_lost (4, 3) (start_py (frame_demo 0) puntos_demo writer_demo) (frame_demo 1) =
     Inr \<lparr>frame_anterior_gray = frame_demo 1,
          puntos_iniciales = [(0, 0), (1, 0), (0, 1)],
          puntos_ref = [(0, 0), (1, 0), (0, 1)],
          out = writer_demo\<lparr>w_frames := [frame_demo 1]\<rparr>\<rparr>"
proof -
  let ?st = "start_py (frame_demo 0) puntos_demo writer_demo"
  have a: "calcOpticalFlowPyrLK cv_lost (frame_anterior_gray ?st) (cvtColor cv_lost (frame_demo 1))
             (puntos_iniciales ?st) = (Some puntos_demo, Some [1, 1, 1, 0, 0])"
    by (simp add: cv_lost_def cv_demo_def start_py_def puntos_demo_def upt_rec)
  have b: "length [1, 1, 1, 0, 0::nat] = length (puntos_iniciales ?st)"
    "length [1, 1, 1, 0, 0::nat] = length puntos_demo"
    "length (puntos_ref ?st) = length (puntos_iniciales ?st)"
    "length (filter (\<lambda>x. x = 1) [1, 1, 1, 0, 0::nat]) < 4"
    by (simp_all add: start_py_def puntos_demo_def)
  from few_survivors_pass_through [OF a b, where dsize="(4, 3)"]
  show ?thesis
    by (simp add: mask_select_def puntos_demo_def start_py_def out_write_def writer_demo_def
        cv_lost_def cv_demo_def)
qed

text \<open>
  C8. The loop starts with as many reference points as tracked points; from a state
  where the two are equally many every iteration returns, whichever branch it takes, a
  state where they are equally many, and so does the whole loop.
\<close>

theorem lengths_stay_equal:
  "aligned (start_py primer_gray puntos w) \<and>
   (aligned st \<longrightarrow> (\<exists>st'. step_py cv dsize st f = Inr st' \<and> aligned st')) \<and>
   (aligned st \<longrightarrow> (\<exists>st'. loop_py cv dsize st fs = Inr st' \<and> aligned st'))"
proof -
  have "\<exists>st'. step_py cv dsize st f = Inr st' \<and> aligned st'" if "aligned st"
    using step_py_cases [OF that, of cv dsize f] by blast
  moreover have "\<exists>st'. loop_py cv dsize st fs = Inr st' \<and> aligned st'" if "aligned st"
    using loop_py_cases [OF that, of cv dsize fs] by blast
  ultimately show ?thesis using aligned_start_py by blast
qed

theorem lengths_stay_equal_witness:
  "aligned (start_py (frame_demo 0) puntos_demo writer_demo) \<and>
   (\<exists>st'. step_py cv_lost (4, 3) (start_py (frame_demo 0) puntos_demo writer_demo)
            (frame_demo 1) = Inr st' \<and>
      length (puntos_iniciales st') = length (puntos_ref st')) \<and>
   (\<exists>st'. loop_py cv_lost (4, 3) (start_py (frame_demo 0) puntos_demo writer_demo)
            [frame_demo 1, frame_demo 2] = Inr st' \<and>
      length (puntos_iniciales st') = length (puntos_ref st'))"
  using lengths_stay_equal [where primer_gray="frame_demo 0" and puntos=puntos_demo
      and w=writer_demo and st="start_py (frame_demo 0) puntos_demo writer_demo"
      and cv=cv_lost and dsize="(4, 3)" and f="frame_demo 1"
      and fs="[frame_demo 1, frame_demo 2]"]
  by (simp add: aligned_def)

text \<open>
  C10. When the size that the container reports, converted by \<open>int\<close>, is the size of
  the first frame, the two functions pass the same frames to their writers, with the same
  library results; and when a first frame can be read, they return the same outcome.
\<close>

theorem stabilizers_agree:
  assumes "\<And>f rest. remaining cap = f # rest \<Longrightarrow>
             int_of_float (CAP_PROP_FRAME_WIDTH cap) = int (cols f) \<and>
             int_of_float (CAP_PROP_FRAME_HEIGHT cap) = int (rows f)"
  shows "frames_out (video_stabilizer_svc cv cap mf ql md) =
           frames_out (video_stabilizer_py cv cap mf ql md) \<and>
         (remaining cap \<noteq> [] \<longrightarrow>
            video_stabilizer_svc cv cap mf ql md = video_stabilizer_py cv cap mf ql md)"
proof (cases "remaining cap")
  case Nil
  then show ?thesis
    by (simp add: video_stabilizer_svc_def video_stabilizer_py_def Let_def frames_out_def
        frames_written_def)
next
  case (Cons f rest)
  from assms [OF Cons] have "int_of_float (CAP_PROP_FRAME_WIDTH cap) = int (cols f)"
    and "int_of_float (CAP_PROP_FRAME_HEIGHT cap) = int (rows f)" by simp_all
  with Cons have "video_stabilizer_svc cv cap mf ql md = video_stabilizer_py cv cap mf ql md"
    by (simp add: video_stabilizer_svc_def video_stabilizer_py_def Let_def loop_svc_eq
        start_py_def split: option.splits)
  with Cons show ?thesis by simp
qed

theorem stabilizers_agree_witness:
  "frames_out (video_stabilizer_svc cv_demo cap_demo 200 (1 / 100) 15) =
     frames_out (video_stabilizer_py cv_demo cap_demo 200 (1 / 100) 15) \<and>
   frames_out (video_stabilizer_py cv_demo cap_demo 200 (1 / 100) 15) = Inr [frame_demo 1]"
proof -
  have h: "int_of_float (CAP_PROP_FRAME_WIDTH cap_demo) = int (cols f) \<and>
           int_of_float (CAP_PROP_FRAME_HEIGHT cap_demo) = int (rows f)"
    if "remaining cap_demo = f # rest" for f rest
    using that by (auto simp: cap_demo_def frame_demo_def int_of_float_def)
  have v: "frames_out (video_stabilizer_py cv_demo cap_demo 200 (1 / 100) 15) =
           Inr [frame_demo 1]"
    by (simp add: stab_eval)
  from stabilizers_agree [OF h, where cv=cv_demo and mf=200 and ql="1 / 100" and md=15] v
  show ?thesis by simp
qed

end
